theory Spec2Isabelle
  imports Main
begin

section \<open>Server records, exceptions and the SSH environment\<close>

text \<open>
  A Python exception is represented by the text that \<open>str(e)\<close> gives for it. Only
  instances of \<open>Exception\<close> are modelled, since that is what the handlers of \<open>bot.py\<close>
  catch; signals such as \<open>KeyboardInterrupt\<close> are outside the model.
\<close>

datatype exn = PyException string

fun str :: "exn \<Rightarrow> string" where
  "str (PyException m) = m"

text \<open>
  One row of the \<open>servers\<close> table as \<open>DatabaseManager.get_servers\<close> builds it. The two
  credential columns are nullable text. The columns \<open>id\<close>, \<open>created_at\<close> and
  \<open>updated_at\<close> are not read by the functions modelled here and are left out.
\<close>

record server =
  name :: string
  ip_address :: string
  port :: int
  username :: string
  password_encrypted :: "string option"
  key_path :: "string option"
  shutdown_command :: string

text \<open>The keyword arguments handed to \<open>paramiko.SSHClient.connect\<close>.\<close>

record auth_kwargs =
  kw_hostname :: string
  kw_port :: int
  kw_username :: string
  kw_timeout :: int
  kw_password :: "string option"
  kw_key_filename :: "string option"

text \<open>
  What the outside world answers during one attempt: \<open>os.path.exists\<close>,
  \<open>CryptoManager.decrypt\<close>, \<open>client.connect\<close> (\<open>None\<close> when the session opens) and
  \<open>client.exec_command\<close> followed by \<open>recv_exit_status\<close>. The text of the remote
  standard error is the result of \<open>stderr.read().decode().strip()\<close>, which may raise.
\<close>

record exec_result =
  exit_status :: int
  stderr_text :: "exn + string"

record world =
  path_exists :: "string \<Rightarrow> bool"
  decrypt :: "string \<Rightarrow> exn + string"
  connect :: "auth_kwargs \<Rightarrow> exn option"
  exec_command :: "string \<Rightarrow> exn + exec_result"

text \<open>
  The observable steps of the SSH manager, in the order they happen. \<open>Attempt n\<close>
  marks the start of the loop pass with \<open>attempt = n\<close>; \<open>Connect\<close> is the call of
  \<open>client.connect\<close>, whether or not it succeeds.
\<close>

datatype effect =
    Attempt nat
  | Connect auth_kwargs
  | ExecCommand string
  | Close
  | Sleep int

text \<open>How the body of a \<open>try\<close> block ends when it does not raise.\<close>

datatype 'a step = Return 'a | Fallthrough

text \<open>Python's \<open>str\<close> on a natural number.\<close>

fun str_nat :: "nat \<Rightarrow> string" where
  "str_nat n =
     (if n < 10 then [''0123456789'' ! n]
      else str_nat (n div 10) @ [''0123456789'' ! (n mod 10)])"

declare str_nat.simps [simp del]

definition max_retries :: nat where
  "max_retries = 3"

section \<open>SSHManager\<close>

subsection \<open>test_connection\<close>

text \<open>The body of the \<open>try\<close> block of \<open>test_connection\<close>.\<close>

definition test_connection_try :: "world \<Rightarrow> server \<Rightarrow> effect list \<times> (exn + bool \<times> string)" where
  "test_connection_try w srv =
     (let auth =
        \<lparr>kw_hostname = ip_address srv, kw_port = port srv, kw_username = username srv,
         kw_timeout = 10, kw_password = None, kw_key_filename = None\<rparr>;
          session = (\<lambda>kw.
            case connect w kw of
              Some e \<Rightarrow> ([Connect kw], Inl e)
            | None \<Rightarrow> ([Connect kw, Close], Inr (True, ''Connection successful'')));
          no_password = (
            case key_path srv of
              None \<Rightarrow> ([], Inr (False, ''No authentication method available''))
            | Some k \<Rightarrow>
                if k \<noteq> [] \<and> path_exists w k
                then session (auth\<lparr>kw_key_filename := Some k\<rparr>)
                else ([], Inr (False, ''No authentication method available'')))
      in case password_encrypted srv of
           None \<Rightarrow> no_password
         | Some c \<Rightarrow>
             if c \<noteq> [] then
               (case decrypt w c of
                  Inl e \<Rightarrow> ([], Inl e)
                | Inr p \<Rightarrow> session (auth\<lparr>kw_password := Some p\<rparr>))
             else no_password)"

text \<open>\<open>test_connection\<close>: the \<open>try\<close> block with its handler \<open>return False, str(e)\<close>.\<close>

definition test_connection :: "world \<Rightarrow> server \<Rightarrow> effect list \<times> (exn + bool \<times> string)" where
  "test_connection w srv =
     (case test_connection_try w srv of
        (tr, Inl e) \<Rightarrow> (tr, Inr (False, str e))
      | (tr, Inr r) \<Rightarrow> (tr, Inr r))"

subsection \<open>shutdown_server\<close>

text \<open>The body of the \<open>try\<close> block of one pass of the retry loop.\<close>

definition shutdown_try :: "world \<Rightarrow> server \<Rightarrow> nat \<Rightarrow> effect list \<times> (exn + (bool \<times> string) step)" where
  "shutdown_try w srv attempt =
     (let auth =
        \<lparr>kw_hostname = ip_address srv, kw_port = port srv, kw_username = username srv,
         kw_timeout = 10, kw_password = None, kw_key_filename = None\<rparr>;
          session = (\<lambda>kw.
            case connect w kw of
              Some e \<Rightarrow> ([Connect kw], Inl e)
            | None \<Rightarrow>
               (case exec_command w (shutdown_command srv) of
                  Inl e \<Rightarrow> ([Connect kw, ExecCommand (shutdown_command srv)], Inl e)
                | Inr r \<Rightarrow>
                    if exit_status r = 0 then
                      ([Connect kw, ExecCommand (shutdown_command srv), Close],
                       Inr (Return (True,
                         ''Shutdown successful (attempt '' @ str_nat (attempt + 1) @ '')'')))
                    else
                      (case stderr_text r of
                         Inl e \<Rightarrow>
                           ([Connect kw, ExecCommand (shutdown_command srv), Close], Inl e)
                       | Inr error_output \<Rightarrow>
                           if attempt = max_retries - 1 then
                             ([Connect kw, ExecCommand (shutdown_command srv), Close],
                              Inr (Return (False, ''Shutdown failed: '' @ error_output)))
                           else
                             ([Connect kw, ExecCommand (shutdown_command srv), Close],
                              Inr Fallthrough))));
          no_password = (
            case key_path srv of
              None \<Rightarrow> ([], Inr (Return (False, ''No authentication method available'')))
            | Some k \<Rightarrow>
                if k \<noteq> [] \<and> path_exists w k
                then session (auth\<lparr>kw_key_filename := Some k\<rparr>)
                else ([], Inr (Return (False, ''No authentication method available''))))
      in case password_encrypted srv of
           None \<Rightarrow> no_password
         | Some c \<Rightarrow>
             if c \<noteq> [] then
               (case decrypt w c of
                  Inl e \<Rightarrow> ([], Inl e)
                | Inr p \<Rightarrow> session (auth\<lparr>kw_password := Some p\<rparr>))
             else no_password)"

text \<open>
  The loop \<open>for attempt in range(max_retries)\<close> over the passes still to run, with the
  handler of the \<open>try\<close> block and the \<open>return\<close> after the loop. The environment gives the
  world of every pass.
\<close>

fun shutdown_loop :: "(nat \<Rightarrow> world) \<Rightarrow> server \<Rightarrow> nat list \<Rightarrow> effect list \<times> (exn + bool \<times> string)" where
  "shutdown_loop env srv [] = ([], Inr (False, ''Max retries exceeded''))"
| "shutdown_loop env srv (attempt # rest) =
     (case shutdown_try (env attempt) srv attempt of
        (tr, Inr (Return r)) \<Rightarrow> (Attempt attempt # tr, Inr r)
      | (tr, Inr Fallthrough) \<Rightarrow>
          (case shutdown_loop env srv rest of
             (tr', r) \<Rightarrow> (Attempt attempt # tr @ tr', r))
      | (tr, Inl e) \<Rightarrow>
          if attempt = max_retries - 1 then
            (Attempt attempt # tr,
             Inr (False,
               ''Connection failed after '' @ str_nat max_retries @ '' attempts: '' @ str e))
          else
            (case shutdown_loop env srv rest of
               (tr', r) \<Rightarrow> (Attempt attempt # tr @ [Sleep 2] @ tr', r)))"

definition shutdown_server :: "(nat \<Rightarrow> world) \<Rightarrow> server \<Rightarrow> effect list \<times> (exn + bool \<times> string)" where
  "shutdown_server env srv = shutdown_loop env srv [0..<max_retries]"

section \<open>ServerBot.handle_power_loss\<close>

text \<open>
  One line of \<open>shutdown_results\<close>: the server's name, the success flag (the source
  renders it as an icon) and the message of \<open>shutdown_server\<close>.
\<close>

record outcome =
  target :: string
  success :: bool
  message :: string

datatype notice = PowerLossNotice | NoServersNotice | ShutdownReport "outcome list"

text \<open>
  The steps of the handler: a call of \<open>bot.send_message\<close>, a call of
  \<open>db.log_event\<close> (which catches its own errors), the SSH steps of one
  \<open>shutdown_server\<close> call, and a record of the module's logger.
\<close>

datatype bot_action =
    SendMessage notice
  | LogEvent string string "string option" "string option"
  | Ssh "effect list"
  | LoggerError string

text \<open>
  The collaborators of the handler: \<open>bot.send_message\<close>, \<open>db.get_servers\<close>, and for
  the target at each position of the list the worlds of its attempts.
\<close>

record bot_env =
  send_message :: "notice \<Rightarrow> exn option"
  get_servers :: "exn + server list"
  ssh_world :: "nat \<Rightarrow> nat \<Rightarrow> world"

text \<open>
  The loop \<open>for server in servers\<close> of \<open>handle_power_loss\<close>; \<open>i\<close> is the position of
  the next server and \<open>acc\<close> is \<open>shutdown_results\<close> so far.
\<close>

fun sweep_loop :: "(nat \<Rightarrow> nat \<Rightarrow> world) \<Rightarrow> nat \<Rightarrow> server list \<Rightarrow> outcome list \<Rightarrow>
    bot_action list \<times> (exn + outcome list)" where
  "sweep_loop env i [] acc = ([], Inr acc)"
| "sweep_loop env i (srv # rest) acc =
     (case shutdown_server (env i) srv of
        (tr, Inl e) \<Rightarrow> ([Ssh tr], Inl e)
      | (tr, Inr (ok, msg)) \<Rightarrow>
          (case sweep_loop env (i + 1) rest
                  (acc @ [\<lparr>target = name srv, success = ok, message = msg\<rparr>]) of
             (acts, r) \<Rightarrow>
               (Ssh tr #
                LogEvent ''server_shutdown'' (''Shutdown '' @ name srv @ '': '' @ msg)
                  (Some (name srv)) (Some (if ok then ''success'' else ''failed'')) #
                acts, r)))"

text \<open>The body of the \<open>try\<close> block of \<open>handle_power_loss\<close>.\<close>

definition handle_power_loss_try :: "bot_env \<Rightarrow> bot_action list \<times> (exn + unit)" where
  "handle_power_loss_try env =
     (case send_message env PowerLossNotice of
        Some e \<Rightarrow> ([SendMessage PowerLossNotice], Inl e)
      | None \<Rightarrow>
         (let started =
            [SendMessage PowerLossNotice,
             LogEvent ''power_loss'' ''Power loss detected, starting server shutdown sequence''
               None None]
          in case get_servers env of
               Inl e \<Rightarrow> (started, Inl e)
             | Inr servers \<Rightarrow>
                 if servers = [] then
                   (case send_message env NoServersNotice of
                      Some e \<Rightarrow> (started @ [SendMessage NoServersNotice], Inl e)
                    | None \<Rightarrow> (started @ [SendMessage NoServersNotice], Inr ()))
                 else
                   (case sweep_loop (ssh_world env) 0 servers [] of
                      (acts, Inl e) \<Rightarrow> (started @ acts, Inl e)
                    | (acts, Inr shutdown_results) \<Rightarrow>
                        (case send_message env (ShutdownReport shutdown_results) of
                           Some e \<Rightarrow>
                             (started @ acts @ [SendMessage (ShutdownReport shutdown_results)],
                              Inl e)
                         | None \<Rightarrow>
                             (started @ acts @ [SendMessage (ShutdownReport shutdown_results)],
                              Inr ())))))"

text \<open>\<open>handle_power_loss\<close>: the \<open>try\<close> block with its handler, which logs twice.\<close>

definition handle_power_loss :: "bot_env \<Rightarrow> bot_action list \<times> (exn + unit)" where
  "handle_power_loss env =
     (case handle_power_loss_try env of
        (acts, Inl e) \<Rightarrow>
          (acts @ [LoggerError (''Error in handle_power_loss: '' @ str e),
                   LogEvent ''error'' (''Error in power loss handling: '' @ str e) None None],
           Inr ())
      | (acts, Inr u) \<Rightarrow> (acts, Inr u))"

text \<open>The outcomes that a run of the handler reports or records.\<close>

fun ssh_steps :: "bot_action list \<Rightarrow> effect list" where
  "ssh_steps [] = []"
| "ssh_steps (Ssh tr # acts) = tr @ ssh_steps acts"
| "ssh_steps (a # acts) = ssh_steps acts"

section \<open>PowerMonitor\<close>

subsection \<open>Sampling the power source\<close>

text \<open>
  The value of the key \<open>plugged\<close> in the battery report: a JSON string or any other
  JSON value.
\<close>

datatype json_value = JString string | JOther

text \<open>
  The platform at one sample. \<open>termux_battery_status\<close> is the call of
  \<open>subprocess.run\<close>: it raises, or gives the return code together with what
  \<open>json.loads(result.stdout).get('plugged')\<close> yields (an exception, no such key, or
  the value). \<open>sys_battery_status\<close> is the stripped text of
  \<open>/sys/class/power_supply/battery/status\<close>, or the exception of opening or reading it.
\<close>

record power_source =
  termux_battery_status :: "exn + int \<times> (exn + json_value option)"
  sys_battery_status :: "exn + string"

datatype log_record = LogError string | LogWarning string | LogInfo string

definition get_charging_status :: "power_source \<Rightarrow> log_record list \<times> bool" where
  "get_charging_status src =
     (case termux_battery_status src of
        Inl e \<Rightarrow> ([LogError (''Error getting charging status: '' @ str e)], True)
      | Inr (returncode, plugged) \<Rightarrow>
          if returncode = 0 then
            (case plugged of
               Inl e \<Rightarrow> ([LogError (''Error getting charging status: '' @ str e)], True)
             | Inr v \<Rightarrow>
                 ([], (case v of None \<Rightarrow> JString ''UNPLUGGED'' | Some x \<Rightarrow> x)
                        \<noteq> JString ''UNPLUGGED''))
          else
            (case sys_battery_status src of
               Inl e \<Rightarrow> ([LogError (''Error getting charging status: '' @ str e)], True)
             | Inr status \<Rightarrow> ([], status = ''Charging'')))"

subsection \<open>The monitoring loop\<close>

datatype power_event = Lost | Restored

text \<open>
  \<open>Emit Lost\<close> is the hand-over of \<open>handle_power_loss\<close> to the bot's event loop and
  \<open>Emit Restored\<close> that of \<open>handle_power_restore\<close>; \<open>Pause\<close> is \<open>time.sleep\<close>.
\<close>

datatype monitor_action =
    Logged log_record
  | Emit power_event
  | StartReminderThread
  | Pause int

record monitor =
  is_charging :: bool
  last_power_loss_time :: "int option"

text \<open>
  What one pass of the loop meets: the power source, \<open>datetime.now()\<close>, whether
  \<open>asyncio.run_coroutine_threadsafe\<close> (with the evaluation of its arguments) raises,
  whether a reminder thread is alive, and whether starting a new thread raises.
\<close>

record pass_env =
  source :: power_source
  clock :: int
  handoff :: "exn option"
  reminder_alive :: bool
  thread_start :: "exn option"

definition PowerMonitor_init :: "power_source \<Rightarrow> log_record list \<times> monitor" where
  "PowerMonitor_init src =
     (case get_charging_status src of
        (logs, charging) \<Rightarrow> (logs, \<lparr>is_charging = charging, last_power_loss_time = None\<rparr>))"

definition start_notification_cycle :: "pass_env \<Rightarrow> monitor_action list \<times> exn option" where
  "start_notification_cycle p =
     (if reminder_alive p then ([], None)
      else case thread_start p of
             Some e \<Rightarrow> ([], Some e)
           | None \<Rightarrow> ([StartReminderThread], None))"

text \<open>
  The body of the \<open>try\<close> block of one pass, up to and including the sleep of 2
  seconds. Assignments made before an exception stay in the state that is returned.
\<close>

definition monitor_try :: "monitor \<Rightarrow> pass_env \<Rightarrow> monitor_action list \<times> exn option \<times> monitor" where
  "monitor_try m p =
     (case get_charging_status (source p) of
        (logs, current_charging) \<Rightarrow>
          if is_charging m \<and> \<not> current_charging then
            (let m1 = m\<lparr>last_power_loss_time := Some (clock p)\<rparr>;
                 pre = map Logged logs @ [Logged (LogWarning ''Power loss detected!'')]
             in case handoff p of
                  Some e \<Rightarrow> (pre, Some e, m1)
                | None \<Rightarrow>
                   (case start_notification_cycle p of
                      (acts, Some e) \<Rightarrow> (pre @ [Emit Lost] @ acts, Some e, m1)
                    | (acts, None) \<Rightarrow>
                        (pre @ [Emit Lost] @ acts @ [Pause 2], None,
                         m1\<lparr>is_charging := current_charging\<rparr>)))
          else if \<not> is_charging m \<and> current_charging then
            (let pre = map Logged logs @ [Logged (LogInfo ''Power restored!'')]
             in case handoff p of
                  Some e \<Rightarrow> (pre, Some e, m)
                | None \<Rightarrow>
                    (pre @ [Emit Restored, Pause 2], None,
                     m\<lparr>is_charging := current_charging\<rparr>))
          else (map Logged logs @ [Pause 2], None, m\<lparr>is_charging := current_charging\<rparr>))"

text \<open>One pass: the \<open>try\<close> block with its handler, which logs and sleeps 5 seconds.\<close>

definition monitor_pass :: "monitor \<Rightarrow> pass_env \<Rightarrow> monitor_action list \<times> monitor" where
  "monitor_pass m p =
     (case monitor_try m p of
        (acts, Some e, m') \<Rightarrow>
          (acts @ [Logged (LogError (''Error in power monitoring: '' @ str e)), Pause 5], m')
      | (acts, None, m') \<Rightarrow> (acts, m'))"

text \<open>
  \<open>_monitor_power\<close> over the passes made while \<open>is_monitoring\<close> is set: the loop ends
  only when the list does.
\<close>

fun monitor_power :: "monitor \<Rightarrow> pass_env list \<Rightarrow> monitor_action list \<times> monitor" where
  "monitor_power m [] = ([], m)"
| "monitor_power m (p # ps) =
     (case monitor_pass m p of
        (acts, m') \<Rightarrow>
          (case monitor_power m' ps of (acts', m'') \<Rightarrow> (acts @ acts', m'')))"

fun events :: "monitor_action list \<Rightarrow> power_event list" where
  "events [] = []"
| "events (Emit e # acts) = e # events acts"
| "events (a # acts) = events acts"

fun pauses :: "monitor_action list \<Rightarrow> int list" where
  "pauses [] = []"
| "pauses (Pause d # acts) = d # pauses acts"
| "pauses (a # acts) = pauses acts"

text \<open>
  Events that alternate, starting from a held state: \<open>Lost\<close> is next when the held
  state is on power, \<open>Restored\<close> when it is on battery.
\<close>

fun alternating :: "bool \<Rightarrow> power_event list \<Rightarrow> bool" where
  "alternating held [] = True"
| "alternating held (e # es) =
     (e = (if held then Lost else Restored) \<and> alternating (\<not> held) es)"

fun no_repeat :: "power_event list \<Rightarrow> bool" where
  "no_repeat (a # b # es) = (a \<noteq> b \<and> no_repeat (b # es))"
| "no_repeat es = True"

subsection \<open>The reminder cycle\<close>

text \<open>
  What the reminder thread reads from the monitor object at a given time (in seconds):
  \<open>is_charging\<close>, \<open>is_monitoring\<close> and \<open>last_power_loss_time\<close>, and whether the
  hand-over of \<open>send_power_reminder\<close> raises then. The sleep takes exactly 300 seconds
  and every other step takes none.
\<close>

record shared_view =
  charging_at :: "int \<Rightarrow> bool"
  monitoring_at :: "int \<Rightarrow> bool"
  loss_time_at :: "int \<Rightarrow> int option"
  remind_handoff :: "int \<Rightarrow> exn option"

datatype reminder_action = Nap int | Tick int

text \<open>
  How a run of the thread stands after the given number of passes: the loop has ended,
  an exception has ended the thread (the function has no handler), or it is still
  looping.
\<close>

datatype cycle_end = Finished | Died exn | Running

fun notification_cycle :: "shared_view \<Rightarrow> nat \<Rightarrow> int \<Rightarrow> reminder_action list \<times> cycle_end" where
  "notification_cycle sh 0 t = ([], Running)"
| "notification_cycle sh (Suc n) t =
     (if \<not> charging_at sh t \<and> monitoring_at sh t then
        (if \<not> charging_at sh (t + 300) then
           (case loss_time_at sh (t + 300) of
              None \<Rightarrow> ([Nap 300], Died (PyException ''TypeError''))
            | Some t0 \<Rightarrow>
               (case remind_handoff sh (t + 300) of
                  Some e \<Rightarrow> ([Nap 300], Died e)
                | None \<Rightarrow>
                   (case notification_cycle sh n (t + 300) of
                      (acts, r) \<Rightarrow> (Nap 300 # Tick (t + 300 - t0) # acts, r))))
         else
           (case notification_cycle sh n (t + 300) of
              (acts, r) \<Rightarrow> (Nap 300 # acts, r)))
      else ([], Finished))"

fun ticks :: "reminder_action list \<Rightarrow> int list" where
  "ticks [] = []"
| "ticks (Tick d # acts) = d # ticks acts"
| "ticks (a # acts) = ticks acts"

section \<open>Vocabulary of the properties\<close>

text \<open>
  A stored password is a ciphertext that Python takes as true (present and not empty);
  a key file is a path that Python takes as true and that exists in the given world.
\<close>

definition has_password :: "server \<Rightarrow> bool" where
  "has_password srv = (case password_encrypted srv of None \<Rightarrow> False | Some c \<Rightarrow> c \<noteq> [])"

definition has_key_file :: "world \<Rightarrow> server \<Rightarrow> bool" where
  "has_key_file w srv =
     (case key_path srv of None \<Rightarrow> False | Some k \<Rightarrow> k \<noteq> [] \<and> path_exists w k)"

text \<open>Projections of a trace of SSH steps.\<close>

fun connects :: "effect list \<Rightarrow> auth_kwargs list" where
  "connects [] = []"
| "connects (Connect kw # tr) = kw # connects tr"
| "connects (a # tr) = connects tr"

fun execs :: "effect list \<Rightarrow> string list" where
  "execs [] = []"
| "execs (ExecCommand c # tr) = c # execs tr"
| "execs (a # tr) = execs tr"

fun sleeps :: "effect list \<Rightarrow> int list" where
  "sleeps [] = []"
| "sleeps (Sleep d # tr) = d # sleeps tr"
| "sleeps (a # tr) = sleeps tr"

fun attempts :: "effect list \<Rightarrow> nat list" where
  "attempts [] = []"
| "attempts (Attempt n # tr) = n # attempts tr"
| "attempts (a # tr) = attempts tr"

text \<open>
  A result that one of the \<open>return\<close> statements inside the retry loop produced: a pair,
  and not the one of the \<open>return\<close> after the loop.
\<close>

definition returned :: "exn + bool \<times> string \<Rightarrow> bool" where
  "returned r = (\<exists>ok msg. r = Inr (ok, msg) \<and> msg \<noteq> ''Max retries exceeded'')"

section \<open>Example inputs\<close>

text \<open>
  Two servers, one with a stored password and one with a key file, and worlds in which
  everything succeeds, the command exits with status 1, the connection is refused, or no
  file exists.
\<close>

definition srv_password :: server where
  "srv_password =
     \<lparr>name = ''nas'', ip_address = ''192.168.1.10'', port = 22, username = ''admin'',
      password_encrypted = Some ''gAAAAAB'', key_path = None,
      shutdown_command = ''sudo shutdown -h now''\<rparr>"

definition srv_key :: server where
  "srv_key =
     \<lparr>name = ''web'', ip_address = ''192.168.1.11'', port = 22, username = ''root'',
      password_encrypted = None, key_path = Some ''/data/id_rsa'',
      shutdown_command = ''sudo shutdown -h now''\<rparr>"

definition world_up :: world where
  "world_up =
     \<lparr>path_exists = (\<lambda>p. True), decrypt = (\<lambda>c. Inr ''secret''),
      connect = (\<lambda>kw. None),
      exec_command = (\<lambda>c. Inr \<lparr>exit_status = 0, stderr_text = Inr ''''\<rparr>)\<rparr>"

definition world_exit1 :: world where
  "world_exit1 =
     world_up\<lparr>exec_command :=
       (\<lambda>c. Inr \<lparr>exit_status = 1, stderr_text = Inr ''sudo: a password is required''\<rparr>)\<rparr>"

definition world_refused :: world where
  "world_refused = world_up\<lparr>connect := (\<lambda>kw. Some (PyException ''Connection refused''))\<rparr>"

definition world_no_files :: world where
  "world_no_files = world_up\<lparr>path_exists := (\<lambda>p. False)\<rparr>"

definition world_undecryptable :: world where
  "world_undecryptable = world_up\<lparr>decrypt := (\<lambda>c. Inl (PyException ''InvalidToken''))\<rparr>"

definition env_always :: "world \<Rightarrow> nat \<Rightarrow> world" where
  "env_always w n = w"

definition env_exit1_then_up :: "nat \<Rightarrow> world" where
  "env_exit1_then_up n = (if n = 0 then world_exit1 else world_up)"

definition kw_password_example :: auth_kwargs where
  "kw_password_example =
     \<lparr>kw_hostname = ''192.168.1.10'', kw_port = 22, kw_username = ''admin'', kw_timeout = 10,
      kw_password = Some ''secret'', kw_key_filename = None\<rparr>"

definition kw_key_example :: auth_kwargs where
  "kw_key_example =
     \<lparr>kw_hostname = ''192.168.1.11'', kw_port = 22, kw_username = ''root'', kw_timeout = 10,
      kw_password = None, kw_key_filename = Some ''/data/id_rsa''\<rparr>"

definition env_all_refused :: "nat \<Rightarrow> nat \<Rightarrow> world" where
  "env_all_refused i = env_always world_refused"

text \<open>
  Starting the reminder thread does not raise in this pass; an exception was raised
  while the power source was read.
\<close>

definition start_ok :: "pass_env \<Rightarrow> bool" where
  "start_ok p = (reminder_alive p \<or> thread_start p = None)"

definition read_fails :: "power_source \<Rightarrow> bool" where
  "read_fails src =
     (case termux_battery_status src of
        Inl e \<Rightarrow> True
      | Inr (returncode, plugged) \<Rightarrow>
          if returncode = 0 then (case plugged of Inl e \<Rightarrow> True | Inr v \<Rightarrow> False)
          else (case sys_battery_status src of Inl e \<Rightarrow> True | Inr status \<Rightarrow> False))"

text \<open>Example power sources, passes of the monitoring loop and a monitor on power.\<close>

definition src_unplugged :: power_source where
  "src_unplugged =
     \<lparr>termux_battery_status = Inr (0, Inr (Some (JString ''UNPLUGGED''))),
      sys_battery_status = Inr ''Discharging''\<rparr>"

definition src_plugged :: power_source where
  "src_plugged =
     \<lparr>termux_battery_status = Inr (0, Inr (Some (JString ''PLUGGED_AC''))),
      sys_battery_status = Inr ''Charging''\<rparr>"

definition src_broken :: power_source where
  "src_broken =
     \<lparr>termux_battery_status = Inl (PyException ''No such file: termux-battery-status''),
      sys_battery_status = Inr ''Discharging''\<rparr>"

definition pass_unplugged :: pass_env where
  "pass_unplugged =
     \<lparr>source = src_unplugged, clock = 0, handoff = None, reminder_alive = False,
      thread_start = None\<rparr>"

definition pass_plugged :: pass_env where
  "pass_plugged = pass_unplugged\<lparr>source := src_plugged\<rparr>"

definition pass_broken :: pass_env where
  "pass_broken = pass_unplugged\<lparr>source := src_broken\<rparr>"

definition pass_unplugged_no_thread :: pass_env where
  "pass_unplugged_no_thread =
     pass_unplugged\<lparr>thread_start := Some (PyException ''cannot start new thread'')\<rparr>"

definition pass_unplugged_no_handoff :: pass_env where
  "pass_unplugged_no_handoff =
     pass_unplugged\<lparr>handoff := Some (PyException ''Event loop is closed'')\<rparr>"

definition monitor_on_power :: monitor where
  "monitor_on_power = \<lparr>is_charging = True, last_power_loss_time = None\<rparr>"

text \<open>
  Every tick of a reminder trace comes directly after a sleep of 300 seconds, and at most
  one tick follows each sleep.
\<close>

fun naps_before_ticks :: "reminder_action list \<Rightarrow> bool" where
  "naps_before_ticks [] = True"
| "naps_before_ticks (Nap d # Tick e # acts) = (d = 300 \<and> naps_before_ticks acts)"
| "naps_before_ticks (Nap d # acts) = (d = 300 \<and> naps_before_ticks acts)"
| "naps_before_ticks (Tick e # acts) = False"

text \<open>
  Three courses of an outage that begins at time 0, as the reminder thread sees them:
  power comes back at 100 and is lost again from 200 to 400; power comes back at 100 for
  good; power comes back at 700.
\<close>

definition view_flapping :: shared_view where
  "view_flapping =
     \<lparr>charging_at = (\<lambda>t. (100 \<le> t \<and> t < 200) \<or> 400 \<le> t),
      monitoring_at = (\<lambda>t. True),
      loss_time_at = (\<lambda>t. if t < 200 then Some 0 else Some 200),
      remind_handoff = (\<lambda>t. None)\<rparr>"

definition view_restored_early :: shared_view where
  "view_restored_early =
     \<lparr>charging_at = (\<lambda>t. 100 \<le> t),
      monitoring_at = (\<lambda>t. True),
      loss_time_at = (\<lambda>t. Some 0),
      remind_handoff = (\<lambda>t. None)\<rparr>"

definition view_long_outage :: shared_view where
  "view_long_outage =
     \<lparr>charging_at = (\<lambda>t. 700 \<le> t),
      monitoring_at = (\<lambda>t. True),
      loss_time_at = (\<lambda>t. Some 0),
      remind_handoff = (\<lambda>t. None)\<rparr>"

section \<open>Properties\<close>

lemma str_nat_digit: "n < 10 \<Longrightarrow> str_nat n = [''0123456789'' ! n]"
  by (simp add: str_nat.simps)

lemma str_nat_small [simp]:
  "str_nat 3 = ''3''" "str_nat 2 = ''2''" "str_nat (Suc 0) = ''1''"
  "str_nat (Suc (Suc 0)) = ''2''" "str_nat (Suc (Suc (Suc 0))) = ''3''"
  by (simp_all add: str_nat.simps)

lemma shutdown_try_no_credentials:
  "\<not> has_password srv \<Longrightarrow> \<not> has_key_file w srv \<Longrightarrow>
   shutdown_try w srv n = ([], Inr (Return (False, ''No authentication method available'')))"
  by (auto simp: shutdown_try_def has_password_def has_key_file_def Let_def split: option.splits)

lemma test_try_no_credentials:
  "\<not> has_password srv \<Longrightarrow> \<not> has_key_file w srv \<Longrightarrow>
   test_connection_try w srv = ([], Inr (False, ''No authentication method available''))"
  by (auto simp: test_connection_try_def has_password_def has_key_file_def Let_def split: option.splits)

lemma upt_max_retries: "[0..<max_retries] = [0, 1, 2]"
  by (simp add: max_retries_def upt_rec)

text \<open>
  C2. A target with neither a stored password nor an existing key file at the first
  attempt is finalized at once: \<open>shutdown_server\<close> makes exactly one attempt, opens no
  session, runs no command, never sleeps, and returns the failure
  \<open>No authentication method available\<close>.
\<close>

theorem shutdown_no_credentials:
  assumes "\<not> has_password srv" and "\<not> has_key_file (env 0) srv"
  shows "shutdown_server env srv = ([Attempt 0], Inr (False, ''No authentication method available''))"
  using assms by (simp add: shutdown_server_def upt_max_retries shutdown_try_no_credentials)

lemma shutdown_try_last_no_fallthrough:
  "shutdown_try w srv (max_retries - 1) \<noteq> (tr, Inr Fallthrough)"
  by (auto simp: shutdown_try_def Let_def split: option.splits sum.splits if_splits)

lemma shutdown_try_return_msg:
  "shutdown_try w srv n = (tr, Inr (Return (ok, msg))) \<Longrightarrow> msg \<noteq> ''Max retries exceeded''"
  by (auto simp: shutdown_try_def Let_def split: option.splits sum.splits if_splits)


lemma shutdown_loop_last:
  "returned (snd (shutdown_loop env srv ((max_retries - 1) # rest)))"
proof (cases "shutdown_try (env (max_retries - 1)) srv (max_retries - 1)")
  case (Pair tr x)
  show ?thesis
  proof (cases x)
    case (Inl e)
    with Pair show ?thesis by (auto simp: returned_def)
  next
    case (Inr st)
    show ?thesis
    proof (cases st)
      case (Return r)
      with Pair Inr shutdown_try_return_msg [of "env (max_retries - 1)" srv "max_retries - 1" tr "fst r" "snd r"]
      show ?thesis by (cases r) (auto simp: returned_def)
    next
      case Fallthrough
      with Pair Inr shutdown_try_last_no_fallthrough [of "env (max_retries - 1)" srv tr]
      show ?thesis by simp
    qed
  qed
qed

lemma shutdown_loop_step:
  assumes "returned (snd (shutdown_loop env srv rest))"
  shows "returned (snd (shutdown_loop env srv (a # rest)))"
proof (cases "shutdown_try (env a) srv a")
  case (Pair tr x)
  show ?thesis
  proof (cases x)
    case (Inl e)
    with Pair assms show ?thesis
      by (cases "shutdown_loop env srv rest") (auto simp: returned_def)
  next
    case (Inr st)
    show ?thesis
    proof (cases st)
      case (Return r)
      with Pair Inr shutdown_try_return_msg [of "env a" srv a tr "fst r" "snd r"]
      show ?thesis by (cases r) (auto simp: returned_def)
    next
      case Fallthrough
      with Pair Inr assms show ?thesis
        by (cases "shutdown_loop env srv rest") simp
    qed
  qed
qed

lemma shutdown_server_returned: "returned (snd (shutdown_server env srv))"
proof -
  have "returned (snd (shutdown_loop env srv [max_retries - 1]))"
    by (rule shutdown_loop_last)
  then have "returned (snd (shutdown_loop env srv [0, 1, (max_retries - 1)]))"
    by (intro shutdown_loop_step [of env srv "[1, (max_retries - 1)]" 0]
          shutdown_loop_step [of env srv "[(max_retries - 1)]" 1])
  moreover have "[0..<max_retries] = [0, 1, (max_retries - 1)]"
    by (simp add: max_retries_def upt_rec)
  ultimately show ?thesis
    unfolding shutdown_server_def by (simp only:)
qed

text \<open>
  C8. \<open>shutdown_server\<close> always returns a pair of a success flag and a message and
  never raises: whatever the worlds of the three attempts do, the result is the value of
  a \<open>return\<close> inside the loop. The last pass never falls through, so the
  \<open>return\<close> after the loop, with \<open>Max retries exceeded\<close>, is not reached.
\<close>

theorem shutdown_server_total:
  "(\<exists>tr ok msg. shutdown_server env srv = (tr, Inr (ok, msg)) \<and> msg \<noteq> ''Max retries exceeded'')
   \<and> (\<forall>w tr. shutdown_try w srv (max_retries - 1) \<noteq> (tr, Inr Fallthrough))"
proof -
  from shutdown_server_returned [of env srv]
  obtain ok msg where "snd (shutdown_server env srv) = Inr (ok, msg)" "msg \<noteq> ''Max retries exceeded''"
    by (auto simp: returned_def)
  then have "shutdown_server env srv = (fst (shutdown_server env srv), Inr (ok, msg))"
    by (metis prod.collapse)
  with \<open>msg \<noteq> _\<close> show ?thesis
    using shutdown_try_last_no_fallthrough by blast
qed

lemmas example_defs = srv_password_def srv_key_def world_up_def world_exit1_def
  world_refused_def world_no_files_def env_always_def env_exit1_then_up_def kw_password_example_def

theorem shutdown_no_credentials_witness:
  "\<not> has_password srv_key \<and> \<not> has_key_file (env_always world_no_files 0) srv_key \<and>
   shutdown_server (env_always world_no_files) srv_key =
     ([Attempt 0], Inr (False, ''No authentication method available''))"
  using shutdown_no_credentials [of srv_key "env_always world_no_files"]
  by (simp add: has_password_def has_key_file_def example_defs)

text \<open>
  C3. The claim asks for a delay of 2 seconds after every failed attempt that is not
  the last. Here the first attempt ends with exit status 1 and the second succeeds: the
  second attempt follows the first directly, with no \<open>Sleep\<close> between them. Only an
  attempt that raises is followed by the delay, as \<open>refused_retried_with_delay\<close> shows.
\<close>

theorem nonzero_exit_retried_without_delay:
  "shutdown_server env_exit1_then_up srv_password =
     ([Attempt 0, Connect kw_password_example, ExecCommand ''sudo shutdown -h now'', Close,
       Attempt 1, Connect kw_password_example, ExecCommand ''sudo shutdown -h now'', Close],
      Inr (True, ''Shutdown successful (attempt 2)''))"
  unfolding shutdown_server_def upt_max_retries
  by (simp add: shutdown_try_def example_defs max_retries_def)

text \<open>
  An attempt that raises is followed by a delay of 2 seconds unless it is the last, and
  the last failure returns the text of the last exception.
\<close>

lemma refused_retried_with_delay:
  "shutdown_server (env_always world_refused) srv_password =
     ([Attempt 0, Connect kw_password_example, Sleep 2,
       Attempt 1, Connect kw_password_example, Sleep 2,
       Attempt 2, Connect kw_password_example],
      Inr (False, ''Connection failed after 3 attempts: Connection refused''))"
  unfolding shutdown_server_def upt_max_retries
  by (simp add: shutdown_try_def example_defs max_retries_def)

text \<open>
  When the command exits with a non-zero status three times, the result carries the
  standard error of the last attempt, and no delay separates the attempts.
\<close>

lemma exit1_final_failure:
  "shutdown_server (env_always world_exit1) srv_password =
     ([Attempt 0, Connect kw_password_example, ExecCommand ''sudo shutdown -h now'', Close,
       Attempt 1, Connect kw_password_example, ExecCommand ''sudo shutdown -h now'', Close,
       Attempt 2, Connect kw_password_example, ExecCommand ''sudo shutdown -h now'', Close],
      Inr (False, ''Shutdown failed: sudo: a password is required''))"
  unfolding shutdown_server_def upt_max_retries
  by (simp add: shutdown_try_def example_defs max_retries_def)

text \<open>
  A stored password that cannot be decrypted is not the case of missing credentials: the
  exception of \<open>decrypt\<close> goes to the handler, and the attempt is retried after the
  delay like any other attempt that raises. No session is opened.
\<close>

lemma undecryptable_password_retried:
  "shutdown_server (env_always world_undecryptable) srv_password =
     ([Attempt 0, Sleep 2, Attempt 1, Sleep 2, Attempt 2],
      Inr (False, ''Connection failed after 3 attempts: InvalidToken''))"
  unfolding shutdown_server_def upt_max_retries
  by (simp add: shutdown_try_def example_defs world_undecryptable_def max_retries_def)

text \<open>
  C9. A record without a stored password whose key path does not exist at the first
  attempt fails at once with \<open>No authentication method available\<close>, in
  \<open>shutdown_server\<close> and in \<open>test_connection\<close>, exactly as the same record with no
  key path at all.
\<close>

theorem missing_key_file:
  assumes "\<not> has_password srv" and "key_path srv = Some k" and "\<not> path_exists (env 0) k"
  shows "shutdown_server env srv =
           ([Attempt 0], Inr (False, ''No authentication method available''))
       \<and> test_connection (env 0) srv =
           ([], Inr (False, ''No authentication method available''))
       \<and> shutdown_server env srv = shutdown_server env (srv\<lparr>key_path := None\<rparr>)
       \<and> test_connection (env 0) srv = test_connection (env 0) (srv\<lparr>key_path := None\<rparr>)"
proof -
  have k: "\<not> has_key_file (env 0) srv"
    using assms by (simp add: has_key_file_def)
  have p': "\<not> has_password (srv\<lparr>key_path := None\<rparr>)"
    using assms by (simp add: has_password_def)
  have k': "\<not> has_key_file (env 0) (srv\<lparr>key_path := None\<rparr>)"
    by (simp add: has_key_file_def)
  have s: "shutdown_server env srv = ([Attempt 0], Inr (False, ''No authentication method available''))"
    by (simp add: shutdown_server_def upt_max_retries shutdown_try_no_credentials assms(1) k)
  have s': "shutdown_server env (srv\<lparr>key_path := None\<rparr>) = ([Attempt 0], Inr (False, ''No authentication method available''))"
    by (simp add: shutdown_server_def upt_max_retries shutdown_try_no_credentials p' k')
  have t: "test_connection (env 0) srv = ([], Inr (False, ''No authentication method available''))"
    by (simp add: test_connection_def test_try_no_credentials assms(1) k)
  have t': "test_connection (env 0) (srv\<lparr>key_path := None\<rparr>) = ([], Inr (False, ''No authentication method available''))"
    by (simp add: test_connection_def test_try_no_credentials p' k')
  show ?thesis using s s' t t' by simp
qed

theorem missing_key_file_witness:
  "\<not> has_password srv_key \<and> key_path srv_key = Some ''/data/id_rsa'' \<and>
   \<not> path_exists (env_always world_no_files 0) ''/data/id_rsa'' \<and>
   shutdown_server (env_always world_no_files) srv_key =
     ([Attempt 0], Inr (False, ''No authentication method available'')) \<and>
   test_connection (env_always world_no_files 0) srv_key =
     ([], Inr (False, ''No authentication method available''))"
  using missing_key_file [of srv_key "''/data/id_rsa''" "env_always world_no_files"]
  by (simp add: has_password_def example_defs)

lemma connects_append [simp]: "connects (xs @ ys) = connects xs @ connects ys"
  by (induction xs rule: connects.induct) auto

lemma test_try_same_connects:
  "connects (fst (test_connection_try w srv)) = connects (fst (shutdown_try w srv n))"
  by (auto simp: test_connection_try_def shutdown_try_def Let_def
           split: option.splits sum.splits)

lemma test_try_same_unavailable:
  "(test_connection_try w srv = ([], Inr (False, ''No authentication method available'')))
   = (shutdown_try w srv n = ([], Inr (Return (False, ''No authentication method available''))))"
  by (auto simp: test_connection_try_def shutdown_try_def Let_def
           split: option.splits sum.splits)

lemma test_try_same_raise:
  "(test_connection_try w srv = ([], Inl e)) = (shutdown_try w srv n = ([], Inl e))"
  by (auto simp: test_connection_try_def shutdown_try_def Let_def
           split: option.splits sum.splits)

lemma test_connection_trace: "fst (test_connection w srv) = fst (test_connection_try w srv)"
  by (cases "test_connection_try w srv") (auto simp: test_connection_def split: sum.splits)

lemma test_try_password_first:
  "has_password srv \<Longrightarrow> kw \<in> set (connects (fst (test_connection_try w srv))) \<Longrightarrow>
   kw_password kw \<noteq> None \<and> kw_key_filename kw = None"
  by (auto simp: test_connection_try_def has_password_def Let_def
           split: option.splits sum.splits if_splits)

lemma test_try_shape:
  "execs (fst (test_connection_try w srv)) = [] \<and>
   length (connects (fst (test_connection_try w srv))) \<le> 1 \<and>
   sleeps (fst (test_connection_try w srv)) = [] \<and>
   (\<forall>kw \<in> set (connects (fst (test_connection_try w srv))). kw_timeout kw = 10)"
  by (auto simp: test_connection_try_def Let_def split: option.splits sum.splits if_splits)

lemma shutdown_try_timeout:
  "kw \<in> set (connects (fst (shutdown_try w srv n))) \<Longrightarrow> kw_timeout kw = 10"
  by (auto simp: shutdown_try_def Let_def split: option.splits sum.splits if_splits)

lemma shutdown_loop_timeout:
  "kw \<in> set (connects (fst (shutdown_loop env srv ns))) \<Longrightarrow> kw_timeout kw = 10"
proof (induction ns)
  case Nil
  then show ?case by simp
next
  case (Cons a ns)
  obtain tr x where t: "shutdown_try (env a) srv a = (tr, x)" by (cases "shutdown_try (env a) srv a")
  obtain tr' r where l: "shutdown_loop env srv ns = (tr', r)" by (cases "shutdown_loop env srv ns")
  have here: "kw \<in> set (connects tr) \<Longrightarrow> kw_timeout kw = 10"
    using shutdown_try_timeout [of kw "env a" srv a] t by simp
  have later: "kw \<in> set (connects tr') \<Longrightarrow> kw_timeout kw = 10"
    using Cons.IH l by simp
  from Cons.prems t l have "kw \<in> set (connects tr) \<or> kw \<in> set (connects tr')"
    by (auto split: sum.splits step.splits if_splits)
  with here later show ?case by blast
qed

text \<open>
  C7, amended. \<open>test_connection\<close> chooses the credentials as a pass of
  \<open>shutdown_server\<close> does: the two make the same calls of \<open>connect\<close>, fail for lack
  of credentials in the same cases and raise from decryption in the same cases; a stored
  password is used in preference to a key file. It runs no remote command, calls
  \<open>connect\<close> at most once and never sleeps. Its connect timeout is 10 seconds, the
  same as that of \<open>shutdown_server\<close>, not a shorter one.
\<close>

theorem test_connection_contract:
  "connects (fst (test_connection_try w srv)) = connects (fst (shutdown_try w srv n))
   \<and> (test_connection_try w srv = ([], Inr (False, ''No authentication method available'')))
     = (shutdown_try w srv n = ([], Inr (Return (False, ''No authentication method available''))))
   \<and> (test_connection_try w srv = ([], Inl e)) = (shutdown_try w srv n = ([], Inl e))
   \<and> (has_password srv \<longrightarrow>
        (\<forall>kw \<in> set (connects (fst (test_connection w srv))).
           kw_password kw \<noteq> None \<and> kw_key_filename kw = None))
   \<and> (\<not> has_password srv \<and> \<not> has_key_file w srv \<longrightarrow>
        test_connection w srv = ([], Inr (False, ''No authentication method available'')))
   \<and> execs (fst (test_connection w srv)) = []
   \<and> length (connects (fst (test_connection w srv))) \<le> 1
   \<and> sleeps (fst (test_connection w srv)) = []
   \<and> (\<forall>kw \<in> set (connects (fst (test_connection w srv))). kw_timeout kw = 10)
   \<and> (\<forall>kw \<in> set (connects (fst (shutdown_server env srv))). kw_timeout kw = 10)"
proof -
  have a: "\<not> has_password srv \<and> \<not> has_key_file w srv \<longrightarrow>
        test_connection w srv = ([], Inr (False, ''No authentication method available''))"
    by (simp add: test_connection_def test_try_no_credentials)
  have b: "\<forall>kw \<in> set (connects (fst (shutdown_server env srv))). kw_timeout kw = 10"
    unfolding shutdown_server_def using shutdown_loop_timeout by blast
  have c: "has_password srv \<longrightarrow>
        (\<forall>kw \<in> set (connects (fst (test_connection w srv))).
           kw_password kw \<noteq> None \<and> kw_key_filename kw = None)"
    unfolding test_connection_trace using test_try_password_first by blast
  show ?thesis
    using a b c test_try_same_connects [of w srv n] test_try_same_unavailable [of w srv n]
      test_try_same_raise [of w srv e n] test_try_shape [of w srv]
    unfolding test_connection_trace by blast
qed

text \<open>
  C7 as stated fails: for a server with a stored password in a world where everything
  succeeds, both operations connect with a timeout of 10 seconds, so the timeout of the
  test is not shorter.
\<close>

theorem test_timeout_not_shorter:
  "map kw_timeout (connects (fst (test_connection world_up srv_password))) = [10]
   \<and> map kw_timeout (connects (fst (shutdown_server (env_always world_up) srv_password))) = [10]
   \<and> \<not> (kw_timeout (hd (connects (fst (test_connection world_up srv_password))))
          < kw_timeout (hd (connects (fst (shutdown_server (env_always world_up) srv_password)))))"
  unfolding shutdown_server_def upt_max_retries
  by (simp add: test_connection_def test_connection_try_def shutdown_try_def example_defs)

theorem test_connection_contract_witness:
  "has_password srv_password
   \<and> connects (fst (test_connection world_up srv_password)) = [kw_password_example]
   \<and> kw_password kw_password_example \<noteq> None \<and> kw_key_filename kw_password_example = None
   \<and> kw_timeout kw_password_example = 10
   \<and> \<not> has_password srv_key \<and> \<not> has_key_file world_no_files srv_key
   \<and> test_connection world_no_files srv_key
       = ([], Inr (False, ''No authentication method available''))"
  using test_connection_contract [of world_up srv_password 0 "PyException ''x''" "env_always world_up"]
    test_connection_contract [of world_no_files srv_key 0 "PyException ''x''" "env_always world_no_files"]
  by (simp add: has_password_def has_key_file_def test_connection_def test_connection_try_def
        example_defs)

lemma shutdown_server_Inr:
  "\<exists>tr ok msg. shutdown_server env srv = (tr, Inr (ok, msg))"
proof -
  from shutdown_server_returned [of env srv]
  obtain ok msg where "snd (shutdown_server env srv) = Inr (ok, msg)"
    by (auto simp: returned_def)
  then show ?thesis by (cases "shutdown_server env srv") auto
qed

lemma sweep_loop_acc:
  "\<exists>acts outs. sweep_loop env i servers acc = (acts, Inr (acc @ outs))
     \<and> length outs = length servers
     \<and> (\<forall>j<length servers.
           target (outs ! j) = name (servers ! j)
         \<and> snd (shutdown_server (env (i + j)) (servers ! j))
             = Inr (success (outs ! j), message (outs ! j)))"
proof (induction servers arbitrary: i acc)
  case Nil
  then show ?case by simp
next
  case (Cons srv rest)
  obtain tr ok msg where s: "shutdown_server (env i) srv = (tr, Inr (ok, msg))"
    using shutdown_server_Inr by blast
  define out where "out = \<lparr>target = name srv, success = ok, message = msg\<rparr>"
  from Cons.IH [of "i + 1" "acc @ [out]"]
  obtain acts outs where r: "sweep_loop env (i + 1) rest (acc @ [out]) = (acts, Inr ((acc @ [out]) @ outs))"
    and len: "length outs = length rest"
    and each: "\<forall>j<length rest. target (outs ! j) = name (rest ! j)
         \<and> snd (shutdown_server (env (i + 1 + j)) (rest ! j)) = Inr (success (outs ! j), message (outs ! j))"
    by blast
  have run: "sweep_loop env i (srv # rest) acc =
      (Ssh tr # LogEvent ''server_shutdown'' (''Shutdown '' @ name srv @ '': '' @ msg)
                  (Some (name srv)) (Some (if ok then ''success'' else ''failed'')) # acts,
       Inr (acc @ (out # outs)))"
    using s r by (simp add: out_def)
  have all: "\<forall>j<length (srv # rest).
           target ((out # outs) ! j) = name ((srv # rest) ! j)
         \<and> snd (shutdown_server (env (i + j)) ((srv # rest) ! j))
             = Inr (success ((out # outs) ! j), message ((out # outs) ! j))"
  proof (intro allI impI)
    fix j assume j: "j < length (srv # rest)"
    show "target ((out # outs) ! j) = name ((srv # rest) ! j)
         \<and> snd (shutdown_server (env (i + j)) ((srv # rest) ! j))
             = Inr (success ((out # outs) ! j), message ((out # outs) ! j))"
    proof (cases j)
      case 0
      then show ?thesis using s by (simp add: out_def)
    next
      case (Suc k)
      with j have "k < length rest" by simp
      with each Suc show ?thesis by simp
    qed
  qed
  from run len all show ?case by (intro exI [of _ "out # outs"] exI) auto
qed

lemma handle_power_loss_returns: "snd (handle_power_loss env) = Inr ()"
  by (cases "handle_power_loss_try env") (auto simp: handle_power_loss_def split: sum.splits)

text \<open>
  C1. For every list of targets and every behaviour of the network, the loop over the
  targets ends without an exception and yields exactly one outcome for each target, in
  the order of the list; each outcome is the result of \<open>shutdown_server\<close> for that
  target. \<open>handle_power_loss\<close> itself never raises, whatever its collaborators do.
\<close>

theorem sweep_one_outcome_per_target:
  "(\<exists>acts outs. sweep_loop env 0 servers [] = (acts, Inr outs)
      \<and> length outs = length servers
      \<and> map target outs = map name servers
      \<and> (\<forall>j<length servers.
            snd (shutdown_server (env j) (servers ! j))
              = Inr (success (outs ! j), message (outs ! j))))
   \<and> snd (handle_power_loss benv) = Inr ()"
proof -
  from sweep_loop_acc [of env 0 servers "[]"]
  obtain acts outs where r: "sweep_loop env 0 servers [] = (acts, Inr outs)"
    and len: "length outs = length servers"
    and each: "\<forall>j<length servers. target (outs ! j) = name (servers ! j)
         \<and> snd (shutdown_server (env (0 + j)) (servers ! j)) = Inr (success (outs ! j), message (outs ! j))"
    by auto
  have "map target outs = map name servers"
    using len each by (intro nth_equalityI) auto
  with r len each handle_power_loss_returns [of benv] show ?thesis by auto
qed


lemma refused_key_retried_with_delay:
  "shutdown_server (env_always world_refused) srv_key =
     ([Attempt 0, Connect kw_key_example, Sleep 2,
       Attempt 1, Connect kw_key_example, Sleep 2,
       Attempt 2, Connect kw_key_example],
      Inr (False, ''Connection failed after 3 attempts: Connection refused''))"
  unfolding shutdown_server_def upt_max_retries
  by (simp add: shutdown_try_def example_defs max_retries_def kw_key_example_def)

lemma example_names: "name srv_password = ''nas''" "name srv_key = ''web''"
  by (simp_all add: srv_password_def srv_key_def)

theorem sweep_one_outcome_per_target_witness:
  "(0::nat) < length [srv_password, srv_key] \<and>
   (\<exists>acts. sweep_loop env_all_refused 0 [srv_password, srv_key] [] =
      (acts,
       Inr [\<lparr>target = ''nas'', success = False,
              message = ''Connection failed after 3 attempts: Connection refused''\<rparr>,
            \<lparr>target = ''web'', success = False,
              message = ''Connection failed after 3 attempts: Connection refused''\<rparr>]))"
  using sweep_one_outcome_per_target [of env_all_refused "[srv_password, srv_key]"]
  by (simp add: env_all_refused_def refused_retried_with_delay refused_key_retried_with_delay
        example_names)

text \<open>
  The loop is entered only after the opening notification has been sent: when that call
  of \<open>send_message\<close> raises, the handler logs the error and no target is contacted.
\<close>

lemma no_sweep_when_first_notice_fails:
  "send_message env PowerLossNotice = Some e \<Longrightarrow> ssh_steps (fst (handle_power_loss env)) = []"
  by (simp add: handle_power_loss_def handle_power_loss_try_def)

text \<open>
  When the opening notification is sent and the registry lists at least one server, the
  report handed to \<open>send_message\<close> holds one outcome for each server.
\<close>

lemma report_sent:
  assumes "send_message env PowerLossNotice = None" and "get_servers env = Inr servers"
    and "servers \<noteq> []"
  shows "\<exists>outs. length outs = length servers
           \<and> SendMessage (ShutdownReport outs) \<in> set (fst (handle_power_loss env))"
proof -
  from sweep_loop_acc [of "ssh_world env" 0 servers "[]"]
  obtain acts outs where "sweep_loop (ssh_world env) 0 servers [] = (acts, Inr outs)"
    and "length outs = length servers"
    by auto
  with assms have "SendMessage (ShutdownReport outs) \<in> set (fst (handle_power_loss env))"
    by (cases "send_message env (ShutdownReport outs)")
       (simp_all add: handle_power_loss_def handle_power_loss_try_def)
  with \<open>length outs = length servers\<close> show ?thesis by blast
qed

lemma events_append [simp]: "events (xs @ ys) = events xs @ events ys"
  by (induction xs rule: events.induct) auto

lemma pauses_append [simp]: "pauses (xs @ ys) = pauses xs @ pauses ys"
  by (induction xs rule: pauses.induct) auto

lemma events_Logged [simp]: "events (map Logged ls) = []"
  by (induction ls) auto

lemma pauses_Logged [simp]: "pauses (map Logged ls) = []"
  by (induction ls) auto

lemma start_cycle_plain [simp]:
  "events (fst (start_notification_cycle p)) = []"
  "pauses (fst (start_notification_cycle p)) = []"
  by (auto simp: start_notification_cycle_def split: option.splits)

lemma start_cycle_ok: "start_ok p \<Longrightarrow> snd (start_notification_cycle p) = None"
  by (auto simp: start_notification_cycle_def start_ok_def split: option.splits)

lemma pass_cases:
  assumes "start_ok p"
  shows "(events (fst (monitor_pass m p)) = [] \<and> is_charging (snd (monitor_pass m p)) = is_charging m)
       \<or> (events (fst (monitor_pass m p)) = [if is_charging m then Lost else Restored]
          \<and> is_charging (snd (monitor_pass m p)) = (\<not> is_charging m)
          \<and> is_charging (snd (monitor_pass m p)) = snd (get_charging_status (source p)))"
proof -
  obtain logs cur where g: "get_charging_status (source p) = (logs, cur)"
    by (cases "get_charging_status (source p)")
  obtain acts e where s: "start_notification_cycle p = (acts, e)"
    by (cases "start_notification_cycle p")
  have e: "e = None" using start_cycle_ok [OF assms] s by simp
  have a: "events acts = []" using start_cycle_plain(1) [of p] s by simp
  show ?thesis
    using g s e a
    by (cases "handoff p") (auto simp: monitor_pass_def monitor_try_def Let_def)
qed

lemma pass_event_needs_change:
  "events (fst (monitor_pass m p)) \<noteq> [] \<Longrightarrow> snd (get_charging_status (source p)) \<noteq> is_charging m"
proof -
  obtain logs cur where g: "get_charging_status (source p) = (logs, cur)"
    by (cases "get_charging_status (source p)")
  obtain acts e where s: "start_notification_cycle p = (acts, e)"
    by (cases "start_notification_cycle p")
  have a: "events acts = []" using start_cycle_plain(1) [of p] s by simp
  assume "events (fst (monitor_pass m p)) \<noteq> []"
  then show ?thesis
    using g s a
    by (cases "handoff p"; cases e)
       (auto simp: monitor_pass_def monitor_try_def Let_def split: if_splits)
qed

lemma alternating_no_repeat: "alternating h es \<Longrightarrow> no_repeat es"
  by (induction es arbitrary: h rule: no_repeat.induct) auto

lemma monitor_power_alternating:
  "\<forall>p\<in>set ps. start_ok p \<Longrightarrow> alternating (is_charging m) (events (fst (monitor_power m ps)))"
proof (induction ps arbitrary: m)
  case Nil
  then show ?case by simp
next
  case (Cons p ps)
  obtain acts m' where mp: "monitor_pass m p = (acts, m')" by (cases "monitor_pass m p")
  obtain acts' m'' where r: "monitor_power m' ps = (acts', m'')" by (cases "monitor_power m' ps")
  have ih: "alternating (is_charging m') (events acts')"
    using Cons.IH [of m'] Cons.prems r by simp
  from Cons.prems have "start_ok p" by simp
  from pass_cases [OF this, of m] mp
  have "(events acts = [] \<and> is_charging m' = is_charging m)
      \<or> (events acts = [if is_charging m then Lost else Restored] \<and> is_charging m' = (\<not> is_charging m))"
    by auto
  then show ?case using mp r ih by auto
qed


lemmas monitor_example_defs = src_unplugged_def src_plugged_def src_broken_def pass_unplugged_def
  pass_plugged_def pass_broken_def pass_unplugged_no_thread_def pass_unplugged_no_handoff_def
  monitor_on_power_def

lemmas monitor_defs = monitor_pass_def monitor_try_def start_notification_cycle_def
  get_charging_status_def Let_def

text \<open>
  In every run in which starting the reminder thread never raises, the events emitted
  strictly alternate, beginning with \<open>Lost\<close> when the held state at the start is on
  power and with \<open>Restored\<close> when it is on battery; no two consecutive events are of
  the same kind. In every pass an event is emitted only when the reading differs from the
  held state, and a pass that emits an event and does not raise sets the held state to
  the reading.
\<close>

theorem events_alternate:
  "((\<forall>p\<in>set ps. start_ok p) \<longrightarrow>
      alternating (is_charging m) (events (fst (monitor_power m ps)))
    \<and> no_repeat (events (fst (monitor_power m ps))))
   \<and> (events (fst (monitor_pass m q)) \<noteq> [] \<longrightarrow>
        snd (get_charging_status (source q)) \<noteq> is_charging m)
   \<and> (start_ok q \<and> events (fst (monitor_pass m q)) \<noteq> [] \<longrightarrow>
        is_charging (snd (monitor_pass m q)) = snd (get_charging_status (source q)))"
proof -
  have a: "(\<forall>p\<in>set ps. start_ok p) \<longrightarrow>
      alternating (is_charging m) (events (fst (monitor_power m ps)))
    \<and> no_repeat (events (fst (monitor_power m ps)))"
    using monitor_power_alternating alternating_no_repeat by blast
  have b: "events (fst (monitor_pass m q)) \<noteq> [] \<longrightarrow>
        snd (get_charging_status (source q)) \<noteq> is_charging m"
    using pass_event_needs_change by blast
  have c: "start_ok q \<and> events (fst (monitor_pass m q)) \<noteq> [] \<longrightarrow>
        is_charging (snd (monitor_pass m q)) = snd (get_charging_status (source q))"
    using pass_cases [of q m] by auto
  from a b c show ?thesis by blast
qed

theorem events_alternate_witness:
  "start_ok pass_plugged
   \<and> events (fst (monitor_power monitor_on_power
         [pass_unplugged, pass_unplugged, pass_plugged, pass_unplugged])) = [Lost, Restored, Lost]
   \<and> alternating (is_charging monitor_on_power) [Lost, Restored, Lost]
   \<and> start_ok pass_unplugged
   \<and> events (fst (monitor_pass monitor_on_power pass_unplugged)) \<noteq> []
   \<and> is_charging (snd (monitor_pass monitor_on_power pass_unplugged)) = False"
  using events_alternate [of "[pass_unplugged, pass_unplugged, pass_plugged, pass_unplugged]"
      monitor_on_power pass_unplugged]
  by (simp add: start_ok_def monitor_defs monitor_example_defs)

text \<open>
  C4. The events emitted should strictly alternate, with the held state updated on each
  transition. The loop assigns the held state at the end of the \<open>try\<close> block, on every
  path but one: an exception raised after the hand-over of \<open>handle_power_loss\<close> (here
  from starting the reminder thread) skips the assignment. With the monitor on power and
  two passes that both read on battery, the first of which fails to start the thread, the
  loop emits \<open>Lost\<close> twice in a row.
\<close>

theorem lost_emitted_twice:
  "events (fst (monitor_power monitor_on_power [pass_unplugged_no_thread, pass_unplugged]))
     = [Lost, Lost]
   \<and> \<not> no_repeat (events (fst (monitor_power monitor_on_power
           [pass_unplugged_no_thread, pass_unplugged])))"
  by (simp add: monitor_defs monitor_example_defs)

lemma read_fails_on_power:
  "read_fails src \<Longrightarrow> snd (get_charging_status src) = True
     \<and> (\<exists>t. fst (get_charging_status src) = [LogError t])"
  by (auto simp: read_fails_def get_charging_status_def split: sum.splits prod.splits if_splits)

lemma emit_in_events: "Emit e \<in> set acts \<Longrightarrow> e \<in> set (events acts)"
  by (induction acts rule: events.induct) auto

lemma read_fails_no_lost:
  assumes "read_fails (source p)"
  shows "Emit Lost \<notin> set (fst (monitor_pass m p))"
proof
  assume "Emit Lost \<in> set (fst (monitor_pass m p))"
  then have l: "Lost \<in> set (events (fst (monitor_pass m p)))" by (rule emit_in_events)
  obtain logs cur where g: "get_charging_status (source p) = (logs, cur)"
    by (cases "get_charging_status (source p)")
  have cur: "cur" using read_fails_on_power [OF assms] g by simp
  obtain acts e where s: "start_notification_cycle p = (acts, e)"
    by (cases "start_notification_cycle p")
  have a: "events acts = []" using start_cycle_plain(1) [of p] s by simp
  from l g cur s a show False
    by (cases "handoff p"; cases e)
       (auto simp: monitor_pass_def monitor_try_def Let_def split: if_splits)
qed

lemma pass_pauses:
  "pauses (fst (monitor_pass m p)) = (if fst (snd (monitor_try m p)) = None then [2] else [5])"
proof -
  obtain logs cur where g: "get_charging_status (source p) = (logs, cur)"
    by (cases "get_charging_status (source p)")
  obtain acts e where s: "start_notification_cycle p = (acts, e)"
    by (cases "start_notification_cycle p")
  have a: "pauses acts = []" using start_cycle_plain(2) [of p] s by simp
  show ?thesis
    using g s a
    by (cases "handoff p"; cases e)
       (auto simp: monitor_pass_def monitor_try_def Let_def split: if_splits)
qed

lemma monitor_power_pauses: "length (pauses (fst (monitor_power m ps))) = length ps"
proof (induction ps arbitrary: m)
  case Nil
  then show ?case by simp
next
  case (Cons p ps)
  obtain acts m' where mp: "monitor_pass m p = (acts, m')" by (cases "monitor_pass m p")
  obtain acts' m'' where r: "monitor_power m' ps = (acts', m'')" by (cases "monitor_power m' ps")
  have "length (pauses acts) = 1" using pass_pauses [of m p] mp by (simp split: if_splits)
  moreover have "length (pauses acts') = length ps" using Cons.IH [of m'] r by simp
  ultimately show ?case using mp r by simp
qed

text \<open>
  C5. When reading the power source raises, \<open>_get_charging_status\<close> answers on power
  and logs one error, so the pass emits no \<open>Lost\<close>. A pass in which the body of the
  loop raises sleeps 5 seconds, any other pass sleeps 2 seconds, and the loop goes on:
  every pass of a run ends with exactly one sleep, whatever failed in it.
\<close>

theorem read_failure_fails_open:
  "(read_fails src \<longrightarrow>
      snd (get_charging_status src) = True \<and> (\<exists>t. fst (get_charging_status src) = [LogError t]))
   \<and> (read_fails (source p) \<longrightarrow> Emit Lost \<notin> set (fst (monitor_pass m p)))
   \<and> (fst (snd (monitor_try m p)) \<noteq> None \<longrightarrow> pauses (fst (monitor_pass m p)) = [5])
   \<and> (fst (snd (monitor_try m p)) = None \<longrightarrow> pauses (fst (monitor_pass m p)) = [2])
   \<and> length (pauses (fst (monitor_power m ps))) = length ps"
  using read_fails_on_power [of src] read_fails_no_lost [of p m] pass_pauses [of m p]
    monitor_power_pauses [of m ps]
  by auto

theorem read_failure_fails_open_witness:
  "read_fails src_broken \<and> snd (get_charging_status src_broken) = True
   \<and> read_fails (source pass_broken)
   \<and> events (fst (monitor_pass monitor_on_power pass_broken)) = []
   \<and> fst (snd (monitor_try monitor_on_power pass_unplugged_no_handoff)) \<noteq> None
   \<and> pauses (fst (monitor_pass monitor_on_power pass_unplugged_no_handoff)) = [5]
   \<and> fst (snd (monitor_try monitor_on_power pass_unplugged)) = None
   \<and> pauses (fst (monitor_pass monitor_on_power pass_unplugged)) = [2]"
  using read_failure_fails_open [of src_broken pass_broken monitor_on_power "[]"]
    read_failure_fails_open [of src_broken pass_unplugged_no_handoff monitor_on_power "[]"]
    read_failure_fails_open [of src_broken pass_unplugged monitor_on_power "[]"]
  by (simp add: read_fails_def monitor_defs monitor_example_defs)

text \<open>
  A failure of the read itself is caught inside \<open>_get_charging_status\<close> and is not an
  error of the loop: the pass then sleeps the usual 2 seconds.
\<close>

lemma read_failure_sleeps_two:
  "pauses (fst (monitor_pass monitor_on_power pass_broken)) = [2]"
  by (simp add: monitor_defs monitor_example_defs)

lemma pass_on_battery:
  assumes "\<not> is_charging m"
  shows "(events (fst (monitor_pass m p)) = [] \<and> \<not> is_charging (snd (monitor_pass m p)))
       \<or> (events (fst (monitor_pass m p)) = [Restored]
          \<and> snd (get_charging_status (source p)))"
proof -
  obtain logs cur where g: "get_charging_status (source p) = (logs, cur)"
    by (cases "get_charging_status (source p)")
  show ?thesis
    using g assms
    by (cases "handoff p") (auto simp: monitor_pass_def monitor_try_def Let_def)
qed

lemma on_battery_first_event:
  "\<not> is_charging m \<Longrightarrow>
   events (fst (monitor_power m ps)) = [] \<or> hd (events (fst (monitor_power m ps))) = Restored"
proof (induction ps arbitrary: m)
  case Nil
  then show ?case by simp
next
  case (Cons p ps)
  obtain acts m' where mp: "monitor_pass m p = (acts, m')" by (cases "monitor_pass m p")
  obtain acts' m'' where r: "monitor_power m' ps = (acts', m'')" by (cases "monitor_power m' ps")
  from pass_on_battery [OF Cons.prems, of p] mp
  have "(events acts = [] \<and> \<not> is_charging m') \<or> events acts = [Restored]" by auto
  then show ?case
  proof
    assume a: "events acts = [] \<and> \<not> is_charging m'"
    then have "events acts' = [] \<or> hd (events acts') = Restored"
      using Cons.IH [of m'] r by simp
    with a mp r show ?thesis by auto
  next
    assume "events acts = [Restored]"
    with mp r show ?thesis by simp
  qed
qed

lemma on_battery_stays_silent:
  "\<not> is_charging m \<Longrightarrow> \<forall>p\<in>set ps. \<not> snd (get_charging_status (source p)) \<Longrightarrow>
   events (fst (monitor_power m ps)) = []"
proof (induction ps arbitrary: m)
  case Nil
  then show ?case by simp
next
  case (Cons p ps)
  obtain acts m' where mp: "monitor_pass m p = (acts, m')" by (cases "monitor_pass m p")
  obtain acts' m'' where r: "monitor_power m' ps = (acts', m'')" by (cases "monitor_power m' ps")
  from Cons.prems have "\<not> snd (get_charging_status (source p))" by simp
  with pass_on_battery [OF Cons.prems(1), of p] mp
  have a: "events acts = [] \<and> \<not> is_charging m'" by auto
  then have "events acts' = []" using Cons.IH [of m'] Cons.prems(2) r by simp
  with a mp r show ?case by simp
qed

lemma init_held: "is_charging (snd (PowerMonitor_init src)) = snd (get_charging_status src)"
  by (cases "get_charging_status src") (simp add: PowerMonitor_init_def)

text \<open>
  C10. The held state starts as the sample taken by the constructor. When that sample
  is on battery, the first event of any run, if there is one, is \<open>Restored\<close>: no
  \<open>Lost\<close> is emitted, and so no sweep is started, for the outage that was already there.
  As long as the readings stay on battery, nothing is emitted at all.
\<close>

theorem outage_before_start_emits_no_lost:
  assumes "\<not> snd (get_charging_status src)"
  shows "is_charging (snd (PowerMonitor_init src)) = snd (get_charging_status src)
       \<and> (events (fst (monitor_power (snd (PowerMonitor_init src)) ps)) = []
          \<or> hd (events (fst (monitor_power (snd (PowerMonitor_init src)) ps))) = Restored)
       \<and> ((\<forall>p\<in>set ps. \<not> snd (get_charging_status (source p))) \<longrightarrow>
            events (fst (monitor_power (snd (PowerMonitor_init src)) ps)) = [])"
proof -
  have h: "\<not> is_charging (snd (PowerMonitor_init src))"
    using assms by (simp add: init_held)
  show ?thesis
    using init_held [of src] on_battery_first_event [OF h, of ps] on_battery_stays_silent [OF h, of ps]
    by blast
qed

theorem outage_before_start_emits_no_lost_witness:
  "\<not> snd (get_charging_status src_unplugged)
   \<and> \<not> snd (get_charging_status (source pass_unplugged))
   \<and> events (fst (monitor_power (snd (PowerMonitor_init src_unplugged))
        [pass_unplugged, pass_unplugged])) = []
   \<and> events (fst (monitor_power (snd (PowerMonitor_init src_unplugged))
        [pass_unplugged, pass_plugged, pass_unplugged])) = [Restored, Lost]"
  using outage_before_start_emits_no_lost [of src_unplugged "[pass_unplugged, pass_unplugged]"]
    outage_before_start_emits_no_lost [of src_unplugged "[pass_unplugged, pass_plugged, pass_unplugged]"]
  by (simp add: PowerMonitor_init_def monitor_defs monitor_example_defs)

lemma tick_origin:
  "Tick d \<in> set (fst (notification_cycle sh n t)) \<Longrightarrow>
   \<exists>k\<ge>1. \<not> charging_at sh (t + 300 * int k)
        \<and> loss_time_at sh (t + 300 * int k) = Some (t + 300 * int k - d)"
proof (induction n arbitrary: t)
  case 0
  then show ?case by simp
next
  case (Suc n)
  obtain acts r where rc: "notification_cycle sh n (t + 300) = (acts, r)"
    by (cases "notification_cycle sh n (t + 300)")
  have later: "Tick d \<in> set acts \<Longrightarrow> ?case"
  proof -
    assume "Tick d \<in> set acts"
    with Suc.IH [of "t + 300"] rc
    obtain k where k: "k \<ge> 1" "\<not> charging_at sh (t + 300 + 300 * int k)"
      "loss_time_at sh (t + 300 + 300 * int k) = Some (t + 300 + 300 * int k - d)"
      by auto
    have "t + 300 + 300 * int k = t + 300 * int (Suc k)" by simp
    with k show ?case by (intro exI [of _ "Suc k"]) (simp only:, simp)
  qed
  have now: "\<not> charging_at sh (t + 300) \<Longrightarrow> loss_time_at sh (t + 300) = Some (t + 300 - d) \<Longrightarrow> ?case"
    by (intro exI [of _ 1]) simp
  from Suc.prems rc show ?case
    using later now
    by (auto split: if_splits option.splits)
qed

lemma restored_at_first_check:
  assumes "charging_at sh (t + 300)"
  shows "ticks (fst (notification_cycle sh n t)) = []
       \<and> (2 \<le> n \<longrightarrow> snd (notification_cycle sh n t) = Finished)"
proof (cases n)
  case 0
  then show ?thesis by simp
next
  case (Suc k)
  show ?thesis
  proof (cases k)
    case 0
    with Suc assms show ?thesis by simp
  next
    case (Suc j)
    with \<open>n = Suc k\<close> assms show ?thesis by simp
  qed
qed

lemma cycle_naps_before_ticks: "naps_before_ticks (fst (notification_cycle sh n t))"
proof (induction n arbitrary: t)
  case 0
  then show ?case by simp
next
  case (Suc n)
  obtain acts r where rc: "notification_cycle sh n (t + 300) = (acts, r)"
    by (cases "notification_cycle sh n (t + 300)")
  have a: "naps_before_ticks acts" using Suc.IH [of "t + 300"] rc by simp
  have b: "naps_before_ticks (Nap 300 # acts)" using a by (cases acts rule: naps_before_ticks.cases) auto
  from rc a b show ?case by (auto split: option.splits)
qed

text \<open>
  C6, amended. Every tick of the reminder cycle is emitted at a wake-up, a whole number
  of 300-second sleeps after the cycle began, at which the held state is on battery, and
  its elapsed time is measured from the loss timestamp held at that wake-up. A tick comes
  only directly after a sleep. If the held state is on power at the first wake-up, no
  tick is emitted and the cycle ends.
\<close>

theorem reminder_rechecks_before_tick:
  "(Tick d \<in> set (fst (notification_cycle sh n t)) \<longrightarrow>
      (\<exists>k\<ge>1. \<not> charging_at sh (t + 300 * int k)
           \<and> loss_time_at sh (t + 300 * int k) = Some (t + 300 * int k - d)))
   \<and> naps_before_ticks (fst (notification_cycle sh n t))
   \<and> (charging_at sh (t + 300) \<longrightarrow>
        ticks (fst (notification_cycle sh n t)) = []
      \<and> (2 \<le> n \<longrightarrow> snd (notification_cycle sh n t) = Finished))"
  using tick_origin [of d sh n t] cycle_naps_before_ticks [of sh n t]
    restored_at_first_check [of sh t n]
  by blast

text \<open>
  C6 as stated fails: power is lost at 0, restored at 100, before the first interval has
  elapsed, and lost again at 200. The thread started at 0 is still asleep, wakes at 300,
  finds the state on battery and emits a tick, with an elapsed time of 100 seconds
  measured from the second loss, not from the original one.
\<close>

theorem tick_after_early_restoration:
  "\<not> charging_at view_flapping 0 \<and> loss_time_at view_flapping 0 = Some 0
   \<and> charging_at view_flapping 100
   \<and> notification_cycle view_flapping 3 0 = ([Nap 300, Tick 100, Nap 300], Finished)"
  by (simp add: view_flapping_def numeral_3_eq_3)

theorem reminder_rechecks_before_tick_witness:
  "charging_at view_restored_early (0 + 300)
   \<and> notification_cycle view_restored_early 3 0 = ([Nap 300], Finished)
   \<and> Tick 600 \<in> set (fst (notification_cycle view_long_outage 4 0))
   \<and> notification_cycle view_long_outage 4 0
        = ([Nap 300, Tick 300, Nap 300, Tick 600, Nap 300], Finished)"
  using reminder_rechecks_before_tick [of 600 view_restored_early 3 0]
    reminder_rechecks_before_tick [of 600 view_long_outage 4 0]
  by (simp add: view_restored_early_def view_long_outage_def eval_nat_numeral)

end
